theory Spec2Isabelle
  imports Main "HOL-Library.AList" "HOL-Library.Word"
begin

section \<open>Shared data model\<close>

text \<open>
  Image blobs are Python \<open>bytes\<close>; times are points on the microsecond grid of
  \<open>datetime\<close>; Python's \<open>dict\<close> keeps insertion order, so a dictionary is an association
  list with distinct keys: \<open>AList.update\<close> overwrites in place or appends at the end,
  \<open>AList.delete\<close> removes the key, \<open>map_of\<close> looks a key up and \<open>length\<close> is \<open>len\<close>.
\<close>

type_synonym bytes = "8 word list"

type_synonym ('k, 'v) dict = "('k \<times> 'v) list"

datatype py_error = IndexError | ValueError

text \<open>JSON values as \<open>json.dumps\<close> sees them; a float is carried as the text the encoder
  writes for it: its \<open>repr\<close> when it is finite, and \<open>NaN\<close>, \<open>Infinity\<close> or \<open>-Infinity\<close>
  otherwise.\<close>

datatype json = JNull | JBool bool | JInt int | JFloat string | JStr string
  | JList "json list" | JDict "(string \<times> json) list"

text \<open>The cached metadata of a video and timestamp is a \<open>List[Dict]\<close>: one descriptor, a
  dictionary with string keys, per generated screenshot.\<close>

type_synonym descriptor = "(string \<times> json) list"

text \<open>\<open>str(n)\<close> for an integer, as the f-strings that build keys render it.\<close>

fun str_nat :: "nat \<Rightarrow> string" where
  "str_nat n = (if n < 10 then [''0123456789'' ! n]
                else str_nat (n div 10) @ [''0123456789'' ! (n mod 10)])"

definition str_int :: "int \<Rightarrow> string" where
  "str_int i = (if i < 0 then ''-'' @ str_nat (nat (- i)) else str_nat (nat i))"

text \<open>Truthiness of an \<open>Optional[bytes]\<close> and of an \<open>Optional[List]\<close>: \<open>None\<close> and the
  empty sequence are both false.\<close>

fun truthy :: "'a list option \<Rightarrow> bool" where
  "truthy None = False"
| "truthy (Some xs) = (xs \<noteq> [])"

section \<open>FastCache (app.py)\<close>

record fast_cache =
  memory_cache :: "(string, bytes) dict"
  metadata_cache :: "(string, descriptor list) dict"
  stat_hits :: int
  stat_misses :: int
  stat_memory_hits :: int
  stat_gcs_hits :: int
  access_order :: "string list"

definition max_memory_items :: nat where
  "max_memory_items = 100"

definition FastCache_init :: fast_cache where
  "FastCache_init = \<lparr> memory_cache = [], metadata_cache = [], stat_hits = 0, stat_misses = 0,
     stat_memory_hits = 0, stat_gcs_hits = 0, access_order = [] \<rparr>"

definition screenshot_key :: "string \<Rightarrow> int \<Rightarrow> string \<Rightarrow> string" where
  "screenshot_key video_id timestamp quality =
     video_id @ ''_'' @ str_int timestamp @ ''_'' @ quality"

definition metadata_key :: "string \<Rightarrow> int \<Rightarrow> string" where
  "metadata_key video_id timestamp = video_id @ ''_'' @ str_int timestamp @ ''_metadata''"

text \<open>The eviction loop of \<open>_store_in_memory\<close>: \<open>popleft\<close> on an empty deque raises
  \<open>IndexError\<close>.\<close>

function evict_loop ::
  "(string, bytes) dict \<Rightarrow> string list \<Rightarrow> py_error + ((string, bytes) dict \<times> string list)"
where
  "evict_loop mem ord =
     (if length mem \<ge> max_memory_items then
        (case ord of
           [] \<Rightarrow> Inl IndexError
         | oldest_key # rest \<Rightarrow>
             evict_loop (if oldest_key \<in> fst ` set mem then AList.delete oldest_key mem else mem)
               rest)
      else Inr (mem, ord))"
  by pat_completeness auto
termination
  by (relation "measure (\<lambda>(mem, ord). length ord)") auto

definition store_in_memory :: "fast_cache \<Rightarrow> string \<Rightarrow> bytes \<Rightarrow> py_error + fast_cache" where
  "store_in_memory s cache_key image_data =
     (case evict_loop (memory_cache s) (access_order s) of
        Inl e \<Rightarrow> Inl e
      | Inr (mem, ord) \<Rightarrow>
          Inr (s\<lparr> memory_cache := AList.update cache_key image_data mem,
                 access_order := ord @ [cache_key] \<rparr>))"

text \<open>\<open>store_screenshot\<close>: the memory insert is awaited; the write to the durable tier is
  a task created afterwards, which does not touch the \<open>FastCache\<close> state.\<close>

definition store_screenshot ::
  "fast_cache \<Rightarrow> string \<Rightarrow> int \<Rightarrow> string \<Rightarrow> bytes \<Rightarrow> py_error + fast_cache" where
  "store_screenshot s video_id timestamp quality image_data =
     store_in_memory s (screenshot_key video_id timestamp quality) image_data"

text \<open>\<open>get_screenshot\<close> is a coroutine with one suspension point, the call of the durable
  tier in the executor. \<open>get_screenshot_memory\<close> is the part before it (level 1),
  \<open>get_screenshot_resume\<close> the part after it, given the value \<open>gcs\<close> that
  \<open>gcs_cache.get_cached_screenshot\<close> returned.\<close>

definition get_screenshot_memory ::
  "fast_cache \<Rightarrow> string \<Rightarrow> py_error + (fast_cache \<times> bytes option)" where
  "get_screenshot_memory s cache_key =
     (case map_of (memory_cache s) cache_key of
        Some data \<Rightarrow>
          (if cache_key \<in> set (access_order s) then
             Inr (s\<lparr> stat_hits := stat_hits s + 1,
                    stat_memory_hits := stat_memory_hits s + 1,
                    access_order := remove1 cache_key (access_order s) @ [cache_key] \<rparr>,
                  Some data)
           else Inl ValueError)
      | None \<Rightarrow> Inr (s, None))"

definition get_screenshot_resume ::
  "fast_cache \<Rightarrow> string \<Rightarrow> bytes option \<Rightarrow> py_error + (fast_cache \<times> bytes option)" where
  "get_screenshot_resume s cache_key gcs =
     (if truthy gcs then
        (case store_in_memory s cache_key (the gcs) of
           Inl e \<Rightarrow> Inl e
         | Inr s' \<Rightarrow>
             Inr (s'\<lparr> stat_hits := stat_hits s' + 1, stat_gcs_hits := stat_gcs_hits s' + 1 \<rparr>,
                  gcs))
      else Inr (s\<lparr> stat_misses := stat_misses s + 1 \<rparr>, None))"

definition get_screenshot ::
  "fast_cache \<Rightarrow> string \<Rightarrow> int \<Rightarrow> string \<Rightarrow> bytes option \<Rightarrow>
     py_error + (fast_cache \<times> bytes option)" where
  "get_screenshot s video_id timestamp quality gcs =
     (let cache_key = screenshot_key video_id timestamp quality in
      case get_screenshot_memory s cache_key of
        Inl e \<Rightarrow> Inl e
      | Inr (s', Some data) \<Rightarrow> Inr (s', Some data)
      | Inr (s', None) \<Rightarrow> get_screenshot_resume s' cache_key gcs)"

text \<open>\<open>get_cached_metadata\<close> and \<open>store_metadata\<close>; \<open>gcs\<close> is what
  \<open>gcs_cache.get_cached_metadata\<close> returned. \<open>next(iter(d))\<close> is the first key in
  insertion order.\<close>

definition get_cached_metadata ::
  "fast_cache \<Rightarrow> string \<Rightarrow> int \<Rightarrow> descriptor list option \<Rightarrow> fast_cache \<times> descriptor list option" where
  "get_cached_metadata s video_id timestamp gcs =
     (let key = metadata_key video_id timestamp in
      case map_of (metadata_cache s) key of
        Some metadata \<Rightarrow> (s, Some metadata)
      | None \<Rightarrow>
          (if truthy gcs then
             (let cache = AList.update key (the gcs) (metadata_cache s);
                  cache' = (if length cache > 50 then AList.delete (fst (hd cache)) cache
                            else cache)
              in (s\<lparr> metadata_cache := cache' \<rparr>, gcs))
           else (s, gcs)))"

definition store_metadata :: "fast_cache \<Rightarrow> string \<Rightarrow> int \<Rightarrow> descriptor list \<Rightarrow> fast_cache" where
  "store_metadata s video_id timestamp metadata =
     s\<lparr> metadata_cache := AList.update (metadata_key video_id timestamp) metadata
                             (metadata_cache s) \<rparr>"

text \<open>Sequences of calls on one \<open>FastCache\<close>; a lookup carries the answer of the durable
  tier at that moment.\<close>

datatype screenshot_call =
    StoreScreenshot string int string bytes
  | GetScreenshot string int string "bytes option"

fun run_screenshot_calls :: "fast_cache \<Rightarrow> screenshot_call list \<Rightarrow> py_error + fast_cache" where
  "run_screenshot_calls s [] = Inr s"
| "run_screenshot_calls s (StoreScreenshot v t q d # cs) =
     (case store_screenshot s v t q d of
        Inl e \<Rightarrow> Inl e
      | Inr s' \<Rightarrow> run_screenshot_calls s' cs)"
| "run_screenshot_calls s (GetScreenshot v t q gcs # cs) =
     (case get_screenshot s v t q gcs of
        Inl e \<Rightarrow> Inl e
      | Inr (s', r) \<Rightarrow> run_screenshot_calls s' cs)"

datatype metadata_call =
    StoreMetadata string int "descriptor list"
  | GetCachedMetadata string int "descriptor list option"

fun run_metadata_calls :: "fast_cache \<Rightarrow> metadata_call list \<Rightarrow> fast_cache" where
  "run_metadata_calls s [] = s"
| "run_metadata_calls s (StoreMetadata v t m # cs) =
     run_metadata_calls (store_metadata s v t m) cs"
| "run_metadata_calls s (GetCachedMetadata v t gcs # cs) =
     run_metadata_calls (fst (get_cached_metadata s v t gcs)) cs"

text \<open>\<open>check_cache_parallel\<close>. \<open>asyncio.gather\<close> starts the four lookups in list order;
  each runs to its suspension point before any answer of the durable tier is delivered, so
  all memory lookups come first (\<open>gather_memory\<close>) and the suspended lookups are resumed
  afterwards (\<open>gather_resume\<close>, here in list order: the order of completion changes the
  final access order only). An exception of a lookup is raised by \<open>gather\<close>.\<close>

definition qualities :: "string list" where
  "qualities = [''ultra'', ''high'', ''medium'', ''low'']"

fun gather_memory ::
  "fast_cache \<Rightarrow> string list \<Rightarrow> py_error + (fast_cache \<times> (string \<times> bytes option) list)" where
  "gather_memory s [] = Inr (s, [])"
| "gather_memory s (q # qs) =
     (case get_screenshot_memory s q of
        Inl e \<Rightarrow> Inl e
      | Inr (s', r) \<Rightarrow>
          (case gather_memory s' qs of
             Inl e \<Rightarrow> Inl e
           | Inr (s'', rs) \<Rightarrow> Inr (s'', (q, r) # rs)))"

fun gather_resume ::
  "fast_cache \<Rightarrow> (string \<times> bytes option) list \<Rightarrow> (string \<Rightarrow> bytes option) \<Rightarrow>
     py_error + (fast_cache \<times> bytes option list)" where
  "gather_resume s [] gcs = Inr (s, [])"
| "gather_resume s ((k, Some data) # ps) gcs =
     (case gather_resume s ps gcs of
        Inl e \<Rightarrow> Inl e
      | Inr (s', rs) \<Rightarrow> Inr (s', Some data # rs))"
| "gather_resume s ((k, None) # ps) gcs =
     (case get_screenshot_resume s k (gcs k) of
        Inl e \<Rightarrow> Inl e
      | Inr (s', r) \<Rightarrow>
          (case gather_resume s' ps gcs of
             Inl e \<Rightarrow> Inl e
           | Inr (s'', rs) \<Rightarrow> Inr (s'', r # rs)))"

text \<open>\<open>gcs_meta\<close> is the answer of \<open>gcs_cache.get_cached_metadata\<close>, \<open>gcs_blob k\<close> the
  answer of \<open>gcs_cache.get_cached_screenshot\<close> for the blob with cache key \<open>k\<close>.\<close>

definition check_cache_parallel ::
  "fast_cache \<Rightarrow> string \<Rightarrow> int \<Rightarrow> descriptor list option \<Rightarrow> (string \<Rightarrow> bytes option) \<Rightarrow>
     py_error + (fast_cache \<times> descriptor list option)" where
  "check_cache_parallel s video_id timestamp gcs_meta gcs_blob =
     (case get_cached_metadata s video_id timestamp gcs_meta of
        (s1, cached_metadata) \<Rightarrow>
          (if truthy cached_metadata then
             (case gather_memory s1 (map (screenshot_key video_id timestamp) qualities) of
                Inl e \<Rightarrow> Inl e
              | Inr (s2, pending) \<Rightarrow>
                  (case gather_resume s2 pending gcs_blob of
                     Inl e \<Rightarrow> Inl e
                   | Inr (s3, cached_images) \<Rightarrow>
                       (if list_all (\<lambda>img. img \<noteq> None) cached_images
                        then Inr (s3, cached_metadata)
                        else Inr (s3, None))))
           else Inr (s1, None)))"

section \<open>StreamCache (app.py)\<close>

text \<open>An entry is the pair of the resolved streams and the \<open>datetime.now()\<close> of its
  insertion. \<open>min(keys, key=...)\<close> returns the first key, in iteration order, whose
  timestamp is minimal, and raises \<open>ValueError\<close> on an empty dictionary.\<close>

type_synonym 's stream_cache = "(string, 's \<times> int) dict"

definition max_items :: nat where
  "max_items = 50"

fun min_timestamp :: "(string \<times> 's \<times> int) \<Rightarrow> (string \<times> 's \<times> int) list \<Rightarrow> string" where
  "min_timestamp best [] = fst best"
| "min_timestamp best (e # es) =
     (if snd (snd e) < snd (snd best) then min_timestamp e es else min_timestamp best es)"

definition oldest_key :: "'s stream_cache \<Rightarrow> py_error + string" where
  "oldest_key c = (case c of [] \<Rightarrow> Inl ValueError | e # es \<Rightarrow> Inr (min_timestamp e es))"

definition cache_streams ::
  "'s stream_cache \<Rightarrow> int \<Rightarrow> string \<Rightarrow> 's \<Rightarrow> py_error + 's stream_cache" where
  "cache_streams c now video_id streams =
     (if length c \<ge> max_items then
        (case oldest_key c of
           Inl e \<Rightarrow> Inl e
         | Inr k \<Rightarrow> Inr (AList.update video_id (streams, now) (AList.delete k c)))
      else Inr (AList.update video_id (streams, now) c))"

text \<open>A run of insertions, each \<open>(video_id, streams, now)\<close>.\<close>

fun cache_streams_all ::
  "'s stream_cache \<Rightarrow> (string \<times> 's \<times> int) list \<Rightarrow> py_error + 's stream_cache" where
  "cache_streams_all c [] = Inr c"
| "cache_streams_all c ((v, st, now) # ins) =
     (case cache_streams c now v st of
        Inl e \<Rightarrow> Inl e
      | Inr c' \<Rightarrow> cache_streams_all c' ins)"

section \<open>JSON serialisation (\<open>json.dumps\<close>, \<open>json.dump\<close>)\<close>

text \<open>The encoder of the standard library, with its defaults (\<open>ensure_ascii\<close>, no key
  sorting). \<open>indent = None\<close> gives the compact form with item separator \<open>", "\<close>; an
  indent of \<open>n\<close> spaces gives item separator \<open>","\<close> and a line break with \<open>n\<close> spaces per
  nesting level before every item and before the closing bracket. Strings are over code
  points below 256.\<close>

definition hex_digit :: "nat \<Rightarrow> char" where
  "hex_digit n = ''0123456789abcdef'' ! (n mod 16)"

definition escape_char :: "char \<Rightarrow> string" where
  "escape_char c =
     (if c = CHR 0x5C then [CHR 0x5C, CHR 0x5C]
      else if c = CHR 0x22 then [CHR 0x5C, CHR 0x22]
      else if c = CHR 0x08 then [CHR 0x5C, CHR ''b'']
      else if c = CHR 0x0C then [CHR 0x5C, CHR ''f'']
      else if c = CHR 0x0A then [CHR 0x5C, CHR ''n'']
      else if c = CHR 0x0D then [CHR 0x5C, CHR ''r'']
      else if c = CHR 0x09 then [CHR 0x5C, CHR ''t'']
      else if (of_char c :: nat) < 32 \<or> (of_char c :: nat) > 126
        then [CHR 0x5C, CHR ''u'', CHR ''0'', CHR ''0'',
              hex_digit (of_char c div 16), hex_digit (of_char c)]
      else [c])"

definition encode_basestring_ascii :: "string \<Rightarrow> string" where
  "encode_basestring_ascii s = [CHR 0x22] @ concat (map escape_char s) @ [CHR 0x22]"

fun join :: "string \<Rightarrow> string list \<Rightarrow> string" where
  "join sep [] = []"
| "join sep [x] = x"
| "join sep (x # y # ys) = x @ sep @ join sep (y # ys)"

fun newline_indent :: "nat option \<Rightarrow> nat \<Rightarrow> string" where
  "newline_indent None level = []"
| "newline_indent (Some n) level = CHR 0x0A # replicate (n * level) CHR '' ''"

fun item_separator :: "nat option \<Rightarrow> string" where
  "item_separator None = '', ''"
| "item_separator (Some n) = '',''"

fun iterencode :: "nat option \<Rightarrow> nat \<Rightarrow> json \<Rightarrow> string" where
  "iterencode indent level JNull = ''null''"
| "iterencode indent level (JBool b) = (if b then ''true'' else ''false'')"
| "iterencode indent level (JInt i) = str_int i"
| "iterencode indent level (JFloat r) = r"
| "iterencode indent level (JStr s) = encode_basestring_ascii s"
| "iterencode indent level (JList xs) =
     (if xs = [] then ''[]''
      else ''['' @ newline_indent indent (level + 1)
           @ join (item_separator indent @ newline_indent indent (level + 1))
                  (map (iterencode indent (level + 1)) xs)
           @ newline_indent indent level @ '']'')"
| "iterencode indent level (JDict kvs) =
     (if kvs = [] then ''{}''
      else ''{'' @ newline_indent indent (level + 1)
           @ join (item_separator indent @ newline_indent indent (level + 1))
                  (map (\<lambda>(k, v). encode_basestring_ascii k @ '': ''
                                   @ iterencode indent (level + 1) v) kvs)
           @ newline_indent indent level @ ''}'')"

definition json_dumps :: "nat option \<Rightarrow> descriptor list \<Rightarrow> string" where
  "json_dumps indent metadata = iterencode indent 0 (JList (map JDict metadata))"

text \<open>The text is ASCII, so its UTF-8 encoding has one byte per character.\<close>

definition encode_text :: "string \<Rightarrow> bytes" where
  "encode_text s = map (\<lambda>c. of_nat (of_char c)) s"

section \<open>Durable backends (localcache.py, gcscache.py)\<close>

text \<open>\<open>timedelta(hours=24)\<close> in microseconds.\<close>

definition cache_duration :: int where
  "cache_duration = 24 * 3600 * 1000000"

definition screenshot_name :: "string \<Rightarrow> int \<Rightarrow> string \<Rightarrow> string" where
  "screenshot_name video_id timestamp quality =
     video_id @ ''_'' @ str_int timestamp @ ''_'' @ quality @ ''.png''"

definition metadata_name :: "string \<Rightarrow> int \<Rightarrow> string" where
  "metadata_name video_id timestamp = video_id @ ''_'' @ str_int timestamp @ ''.json''"

subsection \<open>LocalCache\<close>

text \<open>The two cache directories hold regular files, each with its bytes and its
  modification time; the operating-system calls are taken not to raise. \<open>loads\<close> is
  \<open>json.load\<close>, with \<open>None\<close> for a content it rejects.\<close>

record cache_file =
  content :: bytes
  mtime :: int

record local_cache =
  screenshots_dir :: "(string, cache_file) dict"
  metadata_dir :: "(string, cache_file) dict"

definition is_file_expired :: "(string, cache_file) dict \<Rightarrow> int \<Rightarrow> string \<Rightarrow> bool" where
  "is_file_expired dir now name =
     (case map_of dir name of
        None \<Rightarrow> True
      | Some f \<Rightarrow> now - mtime f \<ge> cache_duration)"


definition local_cache_screenshot ::
  "local_cache \<Rightarrow> int \<Rightarrow> string \<Rightarrow> int \<Rightarrow> string \<Rightarrow> bytes \<Rightarrow> local_cache" where
  "local_cache_screenshot lc now video_id timestamp quality image_data =
     lc\<lparr> screenshots_dir :=
           AList.update (screenshot_name video_id timestamp quality)
             \<lparr> content = image_data, mtime = now \<rparr> (screenshots_dir lc) \<rparr>"


definition local_cache_metadata ::
  "local_cache \<Rightarrow> int \<Rightarrow> string \<Rightarrow> int \<Rightarrow> descriptor list \<Rightarrow> local_cache" where
  "local_cache_metadata lc now video_id timestamp metadata =
     lc\<lparr> metadata_dir :=
           AList.update (metadata_name video_id timestamp)
             \<lparr> content = encode_text (json_dumps (Some 2) metadata), mtime = now \<rparr>
             (metadata_dir lc) \<rparr>"

text \<open>One pass of \<open>cleanup_expired_cache\<close> over a directory listing: the files kept and the
  number removed.\<close>

fun local_cleanup_dir :: "int \<Rightarrow> (string, cache_file) dict \<Rightarrow> (string, cache_file) dict \<times> int" where
  "local_cleanup_dir cutoff_time [] = ([], 0)"
| "local_cleanup_dir cutoff_time ((name, f) # rest) =
     (case local_cleanup_dir cutoff_time rest of
        (kept, deleted_count) \<Rightarrow>
          (if mtime f < cutoff_time then (kept, deleted_count + 1)
           else ((name, f) # kept, deleted_count)))"

definition local_cleanup_expired_cache :: "local_cache \<Rightarrow> int \<Rightarrow> local_cache \<times> int" where
  "local_cleanup_expired_cache lc now =
     (let cutoff_time = now - cache_duration in
      case local_cleanup_dir cutoff_time (screenshots_dir lc) of
        (shots, n1) \<Rightarrow>
          (case local_cleanup_dir cutoff_time (metadata_dir lc) of
             (metas, n2) \<Rightarrow>
               (lc\<lparr> screenshots_dir := shots, metadata_dir := metas \<rparr>, n1 + n2)))"

subsection \<open>GCSCache\<close>

text \<open>A bucket maps object names to objects. \<open>time_created\<close> is what the service reports
  for the object (\<open>None\<close>: no creation time in its metadata). A handle made by
  \<open>bucket.blob(name)\<close> has no properties loaded, so \<open>reload\<close> always runs. The calls to
  the service may raise; \<open>gcs_faults\<close> says which do during one read.\<close>

record gcs_object =
  data :: bytes
  content_type :: string
  time_created :: "int option"

type_synonym bucket = "(string, gcs_object) dict"

record gcs_faults =
  exists_raises :: bool
  reload_raises :: bool
  download_raises :: bool
  fallback_raises :: bool

definition no_faults :: gcs_faults where
  "no_faults = \<lparr> exists_raises = False, reload_raises = False, download_raises = False,
     fallback_raises = False \<rparr>"

definition gcs_cache_key :: "string \<Rightarrow> int \<Rightarrow> string \<Rightarrow> string" where
  "gcs_cache_key video_id timestamp quality =
     ''screenshots/'' @ screenshot_name video_id timestamp quality"

definition gcs_metadata_key :: "string \<Rightarrow> int \<Rightarrow> string" where
  "gcs_metadata_key video_id timestamp = ''metadata/'' @ metadata_name video_id timestamp"

definition gcs_get_cached_screenshot ::
  "bucket \<Rightarrow> gcs_faults \<Rightarrow> int \<Rightarrow> string \<Rightarrow> int \<Rightarrow> string \<Rightarrow> bytes option" where
  "gcs_get_cached_screenshot b fl now video_id timestamp quality =
     (if exists_raises fl then None
      else
        (case map_of b (gcs_cache_key video_id timestamp quality) of
           None \<Rightarrow> None
         | Some blob \<Rightarrow>
             (let fallback = (if fallback_raises fl then None else Some (data blob));
                  download = (if download_raises fl then fallback else Some (data blob))
              in if reload_raises fl then fallback
                 else
                   (case time_created blob of
                      Some blob_time \<Rightarrow>
                        (if now - blob_time \<ge> cache_duration then None else download)
                    | None \<Rightarrow> download))))"

definition gcs_cache_screenshot ::
  "bucket \<Rightarrow> bool \<Rightarrow> int \<Rightarrow> string \<Rightarrow> int \<Rightarrow> string \<Rightarrow> bytes \<Rightarrow> bucket" where
  "gcs_cache_screenshot b upload_raises now video_id timestamp quality image_data =
     (if upload_raises then b
      else AList.update (gcs_cache_key video_id timestamp quality)
             \<lparr> data = image_data, content_type = ''image/png'', time_created = Some now \<rparr> b)"


definition gcs_cache_metadata ::
  "bucket \<Rightarrow> bool \<Rightarrow> int \<Rightarrow> string \<Rightarrow> int \<Rightarrow> descriptor list \<Rightarrow> bucket" where
  "gcs_cache_metadata b upload_raises now video_id timestamp metadata =
     (if upload_raises then b
      else AList.update (gcs_metadata_key video_id timestamp)
             \<lparr> data = encode_text (json_dumps None metadata),
               content_type = ''application/json'', time_created = Some now \<rparr> b)"

text \<open>\<open>cleanup_expired_cache\<close>: one pass over the objects under a prefix, then one over the
  other prefix; the listing and the deletions are taken not to raise.\<close>

fun gcs_cleanup_prefix :: "string \<Rightarrow> int \<Rightarrow> bucket \<Rightarrow> bucket \<times> int" where
  "gcs_cleanup_prefix pre cutoff_time [] = ([], 0)"
| "gcs_cleanup_prefix pre cutoff_time ((name, blob) # rest) =
     (case gcs_cleanup_prefix pre cutoff_time rest of
        (kept, deleted_count) \<Rightarrow>
          (if take (length pre) name = pre then
             (case time_created blob of
                Some blob_time \<Rightarrow>
                  (if blob_time < cutoff_time then (kept, deleted_count + 1)
                   else ((name, blob) # kept, deleted_count))
              | None \<Rightarrow> ((name, blob) # kept, deleted_count))
           else ((name, blob) # kept, deleted_count)))"

definition gcs_cleanup_expired_cache :: "bucket \<Rightarrow> int \<Rightarrow> bucket \<times> int" where
  "gcs_cleanup_expired_cache b now =
     (let cutoff_time = now - cache_duration in
      case gcs_cleanup_prefix ''screenshots/'' cutoff_time b of
        (b1, n1) \<Rightarrow>
          (case gcs_cleanup_prefix ''metadata/'' cutoff_time b1 of
             (b2, n2) \<Rightarrow> (b2, n1 + n2)))"

section \<open>Auxiliary notions for the statements\<close>

text \<open>The consistency of the memory tier under which no call raises: the mapping is a
  dictionary, every key of it occurs in the access order, and it is within capacity.\<close>

definition fc_inv :: "fast_cache \<Rightarrow> bool" where
  "fc_inv s \<longleftrightarrow> distinct (map fst (memory_cache s))
     \<and> fst ` set (memory_cache s) \<subseteq> set (access_order s)
     \<and> length (memory_cache s) \<le> max_memory_items"

text \<open>The value a call returns, without the state it leaves.\<close>

definition returned :: "'e + ('s \<times> 'a) \<Rightarrow> 'e + 'a" where
  "returned r = map_sum id snd r"

text \<open>The expected-quality set in the words of the specification: the qualities that the
  cached metadata lists, one per descriptor.\<close>

definition descriptor_quality :: "descriptor \<Rightarrow> string option" where
  "descriptor_quality kvs =
     (case map_of kvs ''quality'' of Some (JStr q) \<Rightarrow> Some q | _ \<Rightarrow> None)"

definition spec_expected_qualities :: "descriptor list \<Rightarrow> string list" where
  "spec_expected_qualities metadata = List.map_filter descriptor_quality metadata"

text \<open>The value a lookup of \<open>gather\<close> ends with: its memory hit, or else the answer of
  the durable tier when that is a non-empty blob.\<close>

definition resumed :: "(string \<Rightarrow> bytes option) \<Rightarrow> string \<times> bytes option \<Rightarrow> bytes option" where
  "resumed gcs p = (case snd p of Some d \<Rightarrow> Some d
                    | None \<Rightarrow> if truthy (gcs (fst p)) then gcs (fst p) else None)"

text \<open>The bytes a backend holds for a blob or for the metadata of a video and timestamp.\<close>

definition local_stored_screenshot ::
  "local_cache \<Rightarrow> string \<Rightarrow> int \<Rightarrow> string \<Rightarrow> bytes option" where
  "local_stored_screenshot lc video_id timestamp quality =
     map_option content (map_of (screenshots_dir lc) (screenshot_name video_id timestamp quality))"

definition local_stored_metadata :: "local_cache \<Rightarrow> string \<Rightarrow> int \<Rightarrow> bytes option" where
  "local_stored_metadata lc video_id timestamp =
     map_option content (map_of (metadata_dir lc) (metadata_name video_id timestamp))"

definition gcs_stored_screenshot :: "bucket \<Rightarrow> string \<Rightarrow> int \<Rightarrow> string \<Rightarrow> bytes option" where
  "gcs_stored_screenshot b video_id timestamp quality =
     map_option data (map_of b (gcs_cache_key video_id timestamp quality))"

definition gcs_stored_metadata :: "bucket \<Rightarrow> string \<Rightarrow> int \<Rightarrow> bytes option" where
  "gcs_stored_metadata b video_id timestamp =
     map_option data (map_of b (gcs_metadata_key video_id timestamp))"

text \<open>A \<open>LocalCache\<close> as its constructor leaves it on a new directory: both
  subdirectories exist and are empty.\<close>

definition empty_local_cache :: local_cache where
  "empty_local_cache = \<lparr> screenshots_dir = [], metadata_dir = [] \<rparr>"

section \<open>The memory tier of FastCache\<close>

subsection \<open>Eviction never raises on a consistent state\<close>

lemma evict_loop_total:
  "distinct (map fst mem) \<Longrightarrow> fst ` set mem \<subseteq> set ord \<Longrightarrow>
   \<exists>mem' ord'. evict_loop mem ord = Inr (mem', ord') \<and> distinct (map fst mem')
      \<and> fst ` set mem' \<subseteq> set ord' \<and> length mem' < max_memory_items"
proof (induction mem ord rule: evict_loop.induct)
  case (1 mem ord)
  show ?case
  proof (cases "length mem \<ge> max_memory_items")
    case False
    with 1 show ?thesis by simp
  next
    case full: True
    show ?thesis
    proof (cases ord)
      case Nil
      with 1 full show ?thesis by (simp add: max_memory_items_def)
    next
      case (Cons k rest)
      let ?mem = "if k \<in> fst ` set mem then AList.delete k mem else mem"
      have d: "distinct (map fst ?mem)" using "1.prems" by (simp add: distinct_delete)
      have "fst ` set (AList.delete k mem) \<subseteq> set rest"
        using "1.prems"(2) Cons by (auto simp: AList.delete_eq)
      moreover have "k \<notin> fst ` set mem \<Longrightarrow> fst ` set mem \<subseteq> set rest"
        using "1.prems"(2) Cons by auto
      ultimately have s: "fst ` set ?mem \<subseteq> set rest" by simp
      have "evict_loop mem ord = evict_loop ?mem rest"
        using full Cons by (subst evict_loop.simps) simp
      with "1.IH"[OF full Cons d s] show ?thesis by simp
    qed
  qed
qed

lemma length_update_le: "length (AList.update k d mem) \<le> Suc (length mem)"
  by (induction mem) auto

lemma store_in_memory_inv:
  assumes "fc_inv s"
  shows "\<exists>s'. store_in_memory s k d = Inr s' \<and> fc_inv s' \<and> map_of (memory_cache s') k = Some d
     \<and> k \<in> set (access_order s')"
proof -
  from assms obtain mem ord where e: "evict_loop (memory_cache s) (access_order s) = Inr (mem, ord)"
    and d: "distinct (map fst mem)" and sub: "fst ` set mem \<subseteq> set ord"
    and len: "length mem < max_memory_items"
    using evict_loop_total[of "memory_cache s" "access_order s"] by (auto simp: fc_inv_def)
  show ?thesis using e d sub len length_update_le[of k d mem]
    by (auto simp: store_in_memory_def fc_inv_def distinct_update dom_update update_conv')
qed

lemma get_screenshot_memory_inv:
  assumes "fc_inv s"
  shows "\<exists>s'. get_screenshot_memory s k = Inr (s', map_of (memory_cache s) k) \<and> fc_inv s'
     \<and> memory_cache s' = memory_cache s"
proof (cases "map_of (memory_cache s) k")
  case None
  with assms show ?thesis by (simp add: get_screenshot_memory_def)
next
  case (Some d)
  then have "k \<in> fst ` set (memory_cache s)"
    using map_of_eq_None_iff[of "memory_cache s" k] by auto
  with assms have k: "k \<in> set (access_order s)" by (auto simp: fc_inv_def)
  have "fst ` set (memory_cache s) \<subseteq> set (remove1 k (access_order s) @ [k])"
  proof
    fix x assume "x \<in> fst ` set (memory_cache s)"
    with assms have "x \<in> set (access_order s)" by (auto simp: fc_inv_def)
    then show "x \<in> set (remove1 k (access_order s) @ [k])"
      by (cases "x = k") simp_all
  qed
  with assms Some k show ?thesis by (simp add: get_screenshot_memory_def fc_inv_def)
qed

lemma get_screenshot_resume_inv:
  assumes "fc_inv s"
  shows "\<exists>s'. get_screenshot_resume s k gcs = Inr (s', if truthy gcs then gcs else None)
     \<and> fc_inv s'"
proof (cases "truthy gcs")
  case False
  with assms show ?thesis by (simp add: get_screenshot_resume_def fc_inv_def)
next
  case True
  from store_in_memory_inv[OF assms, of k "the gcs"] obtain s1 where
    "store_in_memory s k (the gcs) = Inr s1" "fc_inv s1" by blast
  with True show ?thesis by (simp add: get_screenshot_resume_def fc_inv_def)
qed

lemma get_screenshot_inv:
  assumes "fc_inv s"
  shows "\<exists>s'. get_screenshot s v t q gcs =
           Inr (s', case map_of (memory_cache s) (screenshot_key v t q) of
                      Some d \<Rightarrow> Some d
                    | None \<Rightarrow> if truthy gcs then gcs else None)
     \<and> fc_inv s'"
proof -
  let ?k = "screenshot_key v t q"
  from get_screenshot_memory_inv[OF assms, of ?k] obtain s1 where
    m: "get_screenshot_memory s ?k = Inr (s1, map_of (memory_cache s) ?k)" and i: "fc_inv s1"
    by blast
  show ?thesis
  proof (cases "map_of (memory_cache s) ?k")
    case (Some d)
    with m i show ?thesis by (simp add: get_screenshot_def)
  next
    case None
    from get_screenshot_resume_inv[OF i, of ?k gcs] obtain s2 where
      "get_screenshot_resume s1 ?k gcs = Inr (s2, if truthy gcs then gcs else None)" "fc_inv s2"
      by blast
    with m None show ?thesis by (simp add: get_screenshot_def)
  qed
qed

lemma fc_inv_init: "fc_inv FastCache_init"
  by (simp add: fc_inv_def FastCache_init_def)

lemma run_screenshot_calls_inv:
  "fc_inv s \<Longrightarrow> \<exists>s'. run_screenshot_calls s cs = Inr s' \<and> fc_inv s'"
proof (induction cs arbitrary: s)
  case Nil
  then show ?case by simp
next
  case (Cons c cs)
  show ?case
  proof (cases c)
    case (StoreScreenshot v t q d)
    from store_in_memory_inv[OF Cons.prems, of "screenshot_key v t q" d] obtain s1 where
      "store_screenshot s v t q d = Inr s1" "fc_inv s1" by (auto simp: store_screenshot_def)
    with Cons.IH[of s1] StoreScreenshot show ?thesis by simp
  next
    case (GetScreenshot v t q gcs)
    from get_screenshot_inv[OF Cons.prems, of v t q gcs] obtain s1 r where
      "get_screenshot s v t q gcs = Inr (s1, r)" "fc_inv s1" by blast
    with Cons.IH[of s1] GetScreenshot show ?thesis by simp
  qed
qed

text \<open>What does hold of every run from a fresh cache: no call raises, the mapping stays
  within the capacity of 100, and each of its keys occurs in the access order (at least
  once).\<close>

lemma memory_cache_bounded:
  "\<exists>s. run_screenshot_calls FastCache_init cs = Inr s \<and> length (memory_cache s) \<le> 100
     \<and> distinct (map fst (memory_cache s))
     \<and> fst ` set (memory_cache s) \<subseteq> set (access_order s)"
  using run_screenshot_calls_inv[OF fc_inv_init, of cs]
  by (auto simp: fc_inv_def max_memory_items_def)

text \<open>
  Claim C1: for every sequence of \<open>store_screenshot\<close> and \<open>get_screenshot\<close> calls from a
  fresh cache the mapping holds at most 100 entries and the access order is a permutation
  of the keys of the mapping. On the code the second half fails: \<open>_store_in_memory\<close>
  appends the key without removing an earlier occurrence (the memory-hit path of
  \<open>get_screenshot\<close> removes it first), so storing the same key twice leaves one entry in
  the mapping and two occurrences of its key in the access order.
\<close>

theorem store_twice_duplicates_access_order:
  "\<exists>s. run_screenshot_calls FastCache_init
          [StoreScreenshot ''abc12345678'' 90 ''high'' [1, 2, 3],
           StoreScreenshot ''abc12345678'' 90 ''high'' [1, 2, 3]] = Inr s
     \<and> map fst (memory_cache s) = [''abc12345678_90_high'']
     \<and> access_order s = [''abc12345678_90_high'', ''abc12345678_90_high'']"
  by (simp add: store_screenshot_def store_in_memory_def FastCache_init_def screenshot_key_def
      str_int_def max_memory_items_def)

text \<open>
  Claim C8: after any run of calls from a fresh cache, \<open>store_screenshot\<close> of a key with
  data \<open>d\<close> returns, and the \<open>get_screenshot\<close> of the same key that follows returns exactly
  \<open>d\<close>, whatever the durable tier would answer (\<open>gcs\<close> is arbitrary).
\<close>

theorem store_then_get_returns_data:
  assumes "run_screenshot_calls FastCache_init cs = Inr s"
  shows "\<exists>s1 s2. store_screenshot s v t q d = Inr s1
           \<and> get_screenshot s1 v t q gcs = Inr (s2, Some d)"
proof -
  from run_screenshot_calls_inv[OF fc_inv_init, of cs] assms have i: "fc_inv s" by simp
  from store_in_memory_inv[OF i, of "screenshot_key v t q" d] obtain s1 where
    s: "store_screenshot s v t q d = Inr s1" and i1: "fc_inv s1"
    and m: "map_of (memory_cache s1) (screenshot_key v t q) = Some d"
    by (auto simp: store_screenshot_def)
  from get_screenshot_inv[OF i1, of v t q gcs] m s show ?thesis by auto
qed

theorem store_then_get_returns_data_witness:
  "run_screenshot_calls FastCache_init [] = Inr FastCache_init
   \<and> (\<exists>s1 s2. store_screenshot FastCache_init ''abc12345678'' 90 ''high'' [1, 2, 3] = Inr s1
         \<and> get_screenshot s1 ''abc12345678'' 90 ''high'' None = Inr (s2, Some [1, 2, 3]))"
proof -
  have h: "run_screenshot_calls FastCache_init [] = Inr FastCache_init" by simp
  show ?thesis
    using h store_then_get_returns_data[OF h, of "''abc12345678''" 90 "''high''" "[1, 2, 3]" None]
    by simp
qed

text \<open>
  Claim C10: when the key is not in the memory tier and the durable tier answers with a
  zero-length byte string, \<open>get_screenshot\<close> returns \<open>None\<close>, increments the miss counter
  and changes nothing else: the empty blob is not inserted.
\<close>

theorem empty_blob_is_a_miss:
  assumes "map_of (memory_cache s) (screenshot_key v t q) = None"
  shows "get_screenshot s v t q (Some []) = Inr (s\<lparr> stat_misses := stat_misses s + 1 \<rparr>, None)"
  using assms by (simp add: get_screenshot_def get_screenshot_memory_def get_screenshot_resume_def)

theorem empty_blob_is_a_miss_witness:
  "map_of (memory_cache FastCache_init) (screenshot_key ''abc12345678'' 90 ''high'') = None
   \<and> get_screenshot FastCache_init ''abc12345678'' 90 ''high'' (Some [])
       = Inr (FastCache_init\<lparr> stat_misses := stat_misses FastCache_init + 1 \<rparr>, None)"
proof -
  have h: "map_of (memory_cache FastCache_init) (screenshot_key ''abc12345678'' 90 ''high'') = None"
    by (simp add: FastCache_init_def)
  show ?thesis using h empty_blob_is_a_miss[OF h] by simp
qed

section \<open>The metadata tier of FastCache\<close>

text \<open>
  Claim C3: for every sequence of \<open>store_metadata\<close> and \<open>get_cached_metadata\<close> calls from a
  fresh cache the metadata mapping holds at most 50 entries. On the code this fails:
  only \<open>get_cached_metadata\<close> evicts (after a durable hit); \<open>store_metadata\<close> inserts without
  any check, so 51 stores at distinct timestamps leave 51 entries.
\<close>

theorem store_metadata_exceeds_capacity:
  "length (metadata_cache (run_metadata_calls FastCache_init
      (map (\<lambda>n. StoreMetadata ''abc12345678'' (int n) [[(''quality'', JStr ''high'')]])
           [0..<51]))) = 51"
  by code_simp

section \<open>The coherence check\<close>

lemma gather_memory_inv:
  "fc_inv s \<Longrightarrow>
   \<exists>s'. gather_memory s ks = Inr (s', map (\<lambda>k. (k, map_of (memory_cache s) k)) ks)
     \<and> fc_inv s' \<and> memory_cache s' = memory_cache s"
proof (induction ks arbitrary: s)
  case Nil
  then show ?case by simp
next
  case (Cons k ks)
  from get_screenshot_memory_inv[OF Cons.prems, of k] obtain s1 where
    1: "get_screenshot_memory s k = Inr (s1, map_of (memory_cache s) k)" and i: "fc_inv s1"
    and m: "memory_cache s1 = memory_cache s" by blast
  from Cons.IH[OF i] m obtain s2 where
    "gather_memory s1 ks = Inr (s2, map (\<lambda>k. (k, map_of (memory_cache s) k)) ks)"
    "fc_inv s2" "memory_cache s2 = memory_cache s" by auto
  with 1 show ?case by simp
qed

lemma gather_resume_inv:
  "fc_inv s \<Longrightarrow> \<exists>s'. gather_resume s ps gcs = Inr (s', map (resumed gcs) ps) \<and> fc_inv s'"
proof (induction ps arbitrary: s)
  case Nil
  then show ?case by simp
next
  case (Cons p ps)
  obtain k r where p: "p = (k, r)" by (cases p)
  show ?case
  proof (cases r)
    case (Some d)
    from Cons.IH[OF Cons.prems] obtain s1 where
      "gather_resume s ps gcs = Inr (s1, map (resumed gcs) ps)" "fc_inv s1" by blast
    with p Some show ?thesis by (simp add: resumed_def)
  next
    case None
    from get_screenshot_resume_inv[OF Cons.prems, of k "gcs k"] obtain s1 where
      1: "get_screenshot_resume s k (gcs k) = Inr (s1, if truthy (gcs k) then gcs k else None)"
      and i: "fc_inv s1" by blast
    from Cons.IH[OF i] obtain s2 where
      "gather_resume s1 ps gcs = Inr (s2, map (resumed gcs) ps)" "fc_inv s2" by blast
    with p None 1 show ?thesis by (simp add: resumed_def)
  qed
qed

lemma get_cached_metadata_memory:
  "memory_cache (fst (get_cached_metadata s v t gm)) = memory_cache s
   \<and> access_order (fst (get_cached_metadata s v t gm)) = access_order s"
  by (simp add: get_cached_metadata_def Let_def split: option.splits)

lemma truthy_iff: "truthy g \<longleftrightarrow> (\<exists>y. g = Some y \<and> y \<noteq> [])"
  by (cases g) auto

lemma lookup_present_iff:
  assumes "fc_inv s"
  shows "(\<exists>d. returned (get_screenshot s v t q g) = Inr (Some d))
     \<longleftrightarrow> map_of (memory_cache s) (screenshot_key v t q) \<noteq> None \<or> truthy g"
proof -
  from get_screenshot_inv[OF assms, of v t q g] obtain s' where
    "get_screenshot s v t q g =
           Inr (s', case map_of (memory_cache s) (screenshot_key v t q) of
                      Some d \<Rightarrow> Some d
                    | None \<Rightarrow> if truthy g then g else None)" by blast
  then show ?thesis
    by (cases g) (auto simp: returned_def split: option.splits)
qed

text \<open>
  What the check decides: on a consistent cache \<open>check_cache_parallel\<close> returns, and it
  returns the cached metadata exactly when that metadata is a non-empty list and the
  lookup of every quality of the fixed list \<open>ultra, high, medium, low\<close> returns a blob;
  otherwise it returns \<open>None\<close>. The qualities looked up do not depend on what the metadata
  lists.
\<close>

lemma check_cache_parallel_fixed_qualities:
  assumes "fc_inv s"
  shows "returned (check_cache_parallel s v t gcs_meta gcs_blob) =
     Inr (if truthy (snd (get_cached_metadata s v t gcs_meta))
            \<and> (\<forall>q \<in> set qualities.
                  \<exists>d. returned (get_screenshot s v t q (gcs_blob (screenshot_key v t q)))
                        = Inr (Some d))
          then snd (get_cached_metadata s v t gcs_meta) else None)"
proof -
  obtain s1 md where g: "get_cached_metadata s v t gcs_meta = (s1, md)" by fastforce
  have m1: "memory_cache s1 = memory_cache s" and o1: "access_order s1 = access_order s"
    using get_cached_metadata_memory[of s v t gcs_meta] g by simp_all
  with assms have i1: "fc_inv s1" by (simp add: fc_inv_def)
  let ?keys = "map (screenshot_key v t) qualities"
  let ?pending = "map (\<lambda>k. (k, map_of (memory_cache s) k)) ?keys"
  let ?imgs = "map (resumed gcs_blob) ?pending"
  let ?B = "\<forall>q \<in> set qualities.
              \<exists>d. returned (get_screenshot s v t q (gcs_blob (screenshot_key v t q)))
                    = Inr (Some d)"
  from gather_memory_inv[OF i1, of ?keys] m1 obtain s2 where
    gm: "gather_memory s1 ?keys = Inr (s2, ?pending)" and i2: "fc_inv s2" by auto
  from gather_resume_inv[OF i2, of ?pending gcs_blob] obtain s3 where
    gr: "gather_resume s2 ?pending gcs_blob = Inr (s3, ?imgs)" by blast
  have all: "list_all (\<lambda>img. img \<noteq> None) ?imgs \<longleftrightarrow> ?B"
    unfolding lookup_present_iff[OF assms]
    by (auto simp: list_all_iff resumed_def truthy_iff split: option.splits)
  show ?thesis
  proof (cases "truthy md")
    case False
    with g show ?thesis by (simp add: check_cache_parallel_def returned_def)
  next
    case True
    show ?thesis
    proof (cases ?B)
      case present: True
      with all have "list_all (\<lambda>img. img \<noteq> None) ?imgs" by simp
      with g gm gr True have "check_cache_parallel s v t gcs_meta gcs_blob = Inr (s3, md)"
        by (simp add: check_cache_parallel_def)
      with present True g show ?thesis by (simp add: returned_def)
    next
      case missing: False
      with all have "\<not> list_all (\<lambda>img. img \<noteq> None) ?imgs" by simp
      with g gm gr True have "check_cache_parallel s v t gcs_meta gcs_blob = Inr (s3, None)"
        by (simp add: check_cache_parallel_def)
      then have "returned (check_cache_parallel s v t gcs_meta gcs_blob) = Inr None"
        by (simp add: returned_def)
      moreover have "(truthy (snd (get_cached_metadata s v t gcs_meta)) \<and> ?B) = False"
        using missing by blast
      ultimately show ?thesis by (simp only: if_False)
    qed
  qed
qed

text \<open>A partial hit is a miss: metadata listing ultra and high with only the ultra blob
  retrievable gives \<open>None\<close>.\<close>

lemma check_cache_parallel_partial_hit_example:
  "fc_inv FastCache_init
   \<and> spec_expected_qualities [[(''quality'', JStr ''ultra'')], [(''quality'', JStr ''high'')]]
       = [''ultra'', ''high'']
   \<and> returned (check_cache_parallel FastCache_init ''abc12345678'' 90
        (Some [[(''quality'', JStr ''ultra'')], [(''quality'', JStr ''high'')]])
        (map_of [(''abc12345678_90_ultra'', [1, 2, 3])])) = Inr None"
proof -
  let ?gb = "map_of [(''abc12345678_90_ultra'', [1, 2, 3 :: 8 word])]"
  let ?md = "Some [[(''quality'', JStr ''ultra'')], [(''quality'', JStr ''high'')]]"
  have h: "fc_inv FastCache_init" by (rule fc_inv_init)
  have n: "returned (get_screenshot FastCache_init ''abc12345678'' 90 ''high''
        (?gb (screenshot_key ''abc12345678'' 90 ''high''))) = Inr None"
    by (simp add: returned_def get_screenshot_def get_screenshot_memory_def
        get_screenshot_resume_def FastCache_init_def screenshot_key_def str_int_def)
  have q: "''high'' \<in> set qualities" by (simp add: qualities_def)
  have nb: "(\<forall>q \<in> set qualities.
              \<exists>d. returned (get_screenshot FastCache_init ''abc12345678'' 90 q
                     (?gb (screenshot_key ''abc12345678'' 90 q))) = Inr (Some d)) = False"
  proof -
    have "\<not> (\<exists>d. returned (get_screenshot FastCache_init ''abc12345678'' 90 ''high''
                     (?gb (screenshot_key ''abc12345678'' 90 ''high''))) = Inr (Some d))"
      unfolding n by simp
    with q show ?thesis by blast
  qed
  have r: "returned (check_cache_parallel FastCache_init ''abc12345678'' 90 ?md ?gb) = Inr None"
    by (simp only: check_cache_parallel_fixed_qualities[OF h, of "''abc12345678''" 90 ?md ?gb] nb simp_thms if_False)
  have e: "spec_expected_qualities [[(''quality'', JStr ''ultra'')],
             [(''quality'', JStr ''high'')]] = [''ultra'', ''high'']"
    by (simp add: spec_expected_qualities_def descriptor_quality_def)
  from h e r show ?thesis by (intro conjI)
qed

text \<open>
  Claim C4: with cached metadata present, the check looks up one blob per quality that the
  metadata lists and declares a complete hit exactly when every one of those lookups
  returns a blob. On the code this fails: the list of qualities is fixed to
  \<open>ultra, high, medium, low\<close>, although metadata and blobs are stored only for the tiers a
  video has. Here the metadata lists ultra and high, the lookup of each of the two returns
  its blob, so every image the metadata describes is available, and the check still
  returns \<open>None\<close> (``some images missing''), because the medium and low blobs are looked
  up as well.
\<close>

theorem check_cache_parallel_misses_listed_blobs_present:
  "spec_expected_qualities [[(''quality'', JStr ''ultra'')], [(''quality'', JStr ''high'')]]
       = [''ultra'', ''high'']
   \<and> returned (get_screenshot FastCache_init ''abc12345678'' 90 ''ultra'' (Some [1, 2, 3]))
       = Inr (Some [1, 2, 3])
   \<and> returned (get_screenshot FastCache_init ''abc12345678'' 90 ''high'' (Some [4, 5, 6]))
       = Inr (Some [4, 5, 6])
   \<and> returned (check_cache_parallel FastCache_init ''abc12345678'' 90
        (Some [[(''quality'', JStr ''ultra'')], [(''quality'', JStr ''high'')]])
        (map_of [(''abc12345678_90_ultra'', [1, 2, 3]), (''abc12345678_90_high'', [4, 5, 6])]))
       = Inr None"
  by (simp add: spec_expected_qualities_def descriptor_quality_def returned_def
      check_cache_parallel_def get_cached_metadata_def metadata_key_def qualities_def
      get_screenshot_def get_screenshot_memory_def get_screenshot_resume_def
      store_in_memory_def FastCache_init_def screenshot_key_def str_int_def
      max_memory_items_def Let_def AList.update.simps)

section \<open>The stream-resolution cache\<close>

lemma min_timestamp_minimal:
  "\<exists>e \<in> set (best # es). min_timestamp best es = fst e
      \<and> (\<forall>e' \<in> set (best # es). snd (snd e) \<le> snd (snd e'))"
proof (induction es arbitrary: best)
  case Nil
  then show ?case by simp
next
  case (Cons x es)
  show ?case
  proof (cases "snd (snd x) < snd (snd best)")
    case True
    from Cons.IH[of x] obtain e where "e \<in> set (x # es)" "min_timestamp x es = fst e"
      "\<forall>e' \<in> set (x # es). snd (snd e) \<le> snd (snd e')" by blast
    with True show ?thesis by (intro bexI[of _ e]) auto
  next
    case False
    from Cons.IH[of best] obtain e where "e \<in> set (best # es)" "min_timestamp best es = fst e"
      "\<forall>e' \<in> set (best # es). snd (snd e) \<le> snd (snd e')" by blast
    with False show ?thesis by (intro bexI[of _ e]) auto
  qed
qed

lemma oldest_key_minimal:
  assumes "c \<noteq> []"
  shows "\<exists>e \<in> set c. oldest_key c = Inr (fst e) \<and> (\<forall>e' \<in> set c. snd (snd e) \<le> snd (snd e'))"
proof -
  from assms obtain b es where c: "c = b # es" by (cases c) auto
  from min_timestamp_minimal[of b es] show ?thesis by (simp add: oldest_key_def c)
qed

lemma update_fresh: "v \<notin> fst ` set c \<Longrightarrow> AList.update v x c = c @ [(v, x)]"
  by (induction c) auto

lemma length_delete_present:
  "distinct (map fst c) \<Longrightarrow> k \<in> fst ` set c \<Longrightarrow> Suc (length (AList.delete k c)) = length c"
proof (induction c)
  case Nil
  then show ?case by simp
next
  case (Cons p c)
  show ?case
  proof (cases "fst p = k")
    case True
    with Cons.prems have "k \<notin> fst ` set c" by auto
    then have "AList.delete k c = c" by (rule delete_id)
    with True show ?thesis by (cases p) simp
  next
    case False
    with Cons show ?thesis by (cases p) auto
  qed
qed

lemma cache_streams_all_append:
  "cache_streams_all c (xs @ ys) =
     (case cache_streams_all c xs of Inl e \<Rightarrow> Inl e | Inr c' \<Rightarrow> cache_streams_all c' ys)"
  by (induction xs arbitrary: c) (auto split: sum.splits)

lemma cache_streams_all_below_capacity:
  "distinct (map fst ins) \<Longrightarrow> fst ` set c \<inter> fst ` set ins = {} \<Longrightarrow>
   length c + length ins \<le> max_items \<Longrightarrow> cache_streams_all c ins = Inr (c @ ins)"
proof (induction ins arbitrary: c)
  case Nil
  then show ?case by simp
next
  case (Cons e ins)
  obtain v st now where e: "e = (v, st, now)" by (cases e)
  from Cons.prems e have fresh: "v \<notin> fst ` set c" by auto
  from Cons.prems have "length c < max_items" by simp
  then have step: "cache_streams c now v st = Inr (c @ [(v, st, now)])"
    using fresh by (simp add: cache_streams_def update_fresh)
  have "cache_streams_all (c @ [(v, st, now)]) ins = Inr ((c @ [(v, st, now)]) @ ins)"
    using Cons.prems e by (intro Cons.IH) auto
  with step e show ?case by simp
qed

text \<open>
  Claim C7: an insertion into a stream cache that holds 50 entries or more first removes
  an entry whose creation time is the smallest of all (the first such entry in iteration
  order) and then inserts or overwrites the new entry with the current time; and 51
  insertions of distinct video ids into an empty cache leave exactly 50 entries, the one
  absent being an entry of smallest creation time among the first 50.
\<close>

theorem cache_streams_evicts_oldest:
  "(length c \<ge> max_items \<longrightarrow>
      (\<exists>e \<in> set c. oldest_key c = Inr (fst e)
          \<and> (\<forall>e' \<in> set c. snd (snd e) \<le> snd (snd e'))
          \<and> cache_streams c now v st = Inr (AList.update v (st, now) (AList.delete (fst e) c))))
   \<and> (distinct (map fst ins) \<and> length ins = 51 \<longrightarrow>
      (\<exists>e \<in> set (take 50 ins). \<exists>c'.
          (\<forall>e' \<in> set (take 50 ins). snd (snd e) \<le> snd (snd e'))
          \<and> cache_streams_all [] ins = Inr c'
          \<and> length c' = 50
          \<and> fst ` set c' = fst ` set ins - {fst e}))"
proof (intro conjI impI)
  assume full: "length c \<ge> max_items"
  then have "c \<noteq> []" by (auto simp: max_items_def)
  from oldest_key_minimal[OF this] obtain e where
    "e \<in> set c" "oldest_key c = Inr (fst e)" "\<forall>e' \<in> set c. snd (snd e) \<le> snd (snd e')" by blast
  with full show "\<exists>e \<in> set c. oldest_key c = Inr (fst e)
          \<and> (\<forall>e' \<in> set c. snd (snd e) \<le> snd (snd e'))
          \<and> cache_streams c now v st = Inr (AList.update v (st, now) (AList.delete (fst e) c))"
    by (intro bexI[of _ e]) (simp_all add: cache_streams_def)
next
  assume a: "distinct (map fst ins) \<and> length ins = 51"
  let ?c = "take 50 ins"
  have len1: "length (drop 50 ins) = 1" using a by simp
  obtain x where "drop 50 ins = [x]"
  proof (cases "drop 50 ins")
    case Nil
    from len1[unfolded Nil] show ?thesis by simp
  next
    case (Cons y ys)
    from len1[unfolded Cons] have "ys = []" by simp
    with Cons that show ?thesis by simp
  qed
  then obtain v st now where l: "drop 50 ins = [(v, st, now)]" by (cases x) auto
  have ins: "ins = ?c @ [(v, st, now)]" using l append_take_drop_id[of 50 ins] by simp
  have dc: "distinct (map fst ?c)" and fresh: "v \<notin> fst ` set ?c"
  proof -
    have "distinct (map fst (?c @ [(v, st, now)]))" using a ins by simp
    then show "distinct (map fst ?c)" and "v \<notin> fst ` set ?c" by simp_all
  qed
  have lc: "length ?c = 50" using a by simp
  have first: "cache_streams_all [] ?c = Inr ?c"
    using cache_streams_all_below_capacity[of ?c "[]"] dc lc by (simp add: max_items_def)
  have ne: "?c \<noteq> []" using lc by auto
  from oldest_key_minimal[OF ne] obtain e where
    e: "e \<in> set ?c" and o: "oldest_key ?c = Inr (fst e)"
    and m: "\<forall>e' \<in> set ?c. snd (snd e) \<le> snd (snd e')" by blast
  have fresh': "v \<notin> fst ` set (AList.delete (fst e) ?c)"
    using fresh dom_delete_subset[of "fst e" ?c] by blast
  have last: "cache_streams ?c now v st = Inr (AList.delete (fst e) ?c @ [(v, st, now)])"
    using lc o fresh' by (simp add: cache_streams_def max_items_def update_fresh)
  have run: "cache_streams_all [] ins = Inr (AList.delete (fst e) ?c @ [(v, st, now)])"
    by (subst ins, subst cache_streams_all_append) (simp add: first last)
  have len: "length (AList.delete (fst e) ?c @ [(v, st, now)]) = 50"
    using length_delete_present[OF dc, of "fst e"] e lc by auto
  have "fst ` set (AList.delete (fst e) ?c) = fst ` set ?c - {fst e}"
    by (auto simp: AList.delete_eq)
  moreover have "fst ` set ins = insert v (fst ` set ?c)" by (subst ins) auto
  moreover have "v \<noteq> fst e" using fresh e by auto
  ultimately have keys: "fst ` set (AList.delete (fst e) ?c @ [(v, st, now)]) = fst ` set ins - {fst e}"
    by auto
  from e m run len keys
  show "\<exists>e \<in> set ?c. \<exists>c'.
          (\<forall>e' \<in> set ?c. snd (snd e) \<le> snd (snd e'))
          \<and> cache_streams_all [] ins = Inr c'
          \<and> length c' = 50
          \<and> fst ` set c' = fst ` set ins - {fst e}"
    by (intro bexI[of _ e] exI[of _ "AList.delete (fst e) ?c @ [(v, st, now)]"]) simp_all
qed

theorem cache_streams_evicts_oldest_witness:
  "length (map (\<lambda>n. (str_nat n, (), \<bar>int n - 7\<bar>)) [0..<50]) \<ge> max_items
   \<and> distinct (map fst (map (\<lambda>n. (str_nat n, (), \<bar>int n - 7\<bar>)) [0..<51]))
   \<and> length (map (\<lambda>n. (str_nat n, (), \<bar>int n - 7\<bar>)) [0..<51]) = 51
   \<and> (\<exists>e \<in> set (map (\<lambda>n. (str_nat n, (), \<bar>int n - 7\<bar>)) [0..<50]).
          oldest_key (map (\<lambda>n. (str_nat n, (), \<bar>int n - 7\<bar>)) [0..<50]) = Inr (fst e)
          \<and> cache_streams (map (\<lambda>n. (str_nat n, (), \<bar>int n - 7\<bar>)) [0..<50]) 99 ''new'' ()
              = Inr (AList.update ''new'' ((), 99)
                   (AList.delete (fst e) (map (\<lambda>n. (str_nat n, (), \<bar>int n - 7\<bar>)) [0..<50]))))
   \<and> (\<exists>c'. cache_streams_all [] (map (\<lambda>n. (str_nat n, (), \<bar>int n - 7\<bar>)) [0..<51]) = Inr c'
          \<and> length c' = 50)"
proof -
  let ?c = "map (\<lambda>n. (str_nat n, (), \<bar>int n - 7\<bar>)) [0..<50]"
  let ?ins = "map (\<lambda>n. (str_nat n, (), \<bar>int n - 7\<bar>)) [0..<51]"
  have h1: "length ?c \<ge> max_items" by (simp add: max_items_def)
  have h2: "distinct (map fst ?ins)" by code_simp
  have h3: "length ?ins = 51" by simp
  from cache_streams_evicts_oldest[where c = ?c and now = 99 and v = "''new''" and st = "()"
      and ins = ?ins] h1 h2 h3
  have "(\<exists>e \<in> set ?c. oldest_key ?c = Inr (fst e)
          \<and> (\<forall>e' \<in> set ?c. snd (snd e) \<le> snd (snd e'))
          \<and> cache_streams ?c 99 ''new'' () = Inr (AList.update ''new'' ((), 99) (AList.delete (fst e) ?c)))"
    and "(\<exists>e \<in> set (take 50 ?ins). \<exists>c'.
          (\<forall>e' \<in> set (take 50 ?ins). snd (snd e) \<le> snd (snd e'))
          \<and> cache_streams_all [] ?ins = Inr c'
          \<and> length c' = 50
          \<and> fst ` set c' = fst ` set ?ins - {fst e})"
    by blast+
  then have "\<exists>e \<in> set ?c. oldest_key ?c = Inr (fst e)
          \<and> cache_streams ?c 99 ''new'' () = Inr (AList.update ''new'' ((), 99) (AList.delete (fst e) ?c))"
    and "\<exists>c'. cache_streams_all [] ?ins = Inr c' \<and> length c' = 50"
    by blast+
  with h1 h2 h3 show ?thesis by (intro conjI)
qed

section \<open>The durable backends\<close>

subsection \<open>What the two backends store\<close>

lemma encode_text_inj: "encode_text s1 = encode_text s2 \<Longrightarrow> s1 = s2"
proof (induction s1 arbitrary: s2)
  case Nil
  then show ?case by (simp add: encode_text_def)
next
  case (Cons c s1)
  then obtain d s2' where s2: "s2 = d # s2'" by (cases s2) (auto simp: encode_text_def)
  from Cons.prems s2 have w: "(of_nat (of_char c) :: 8 word) = of_nat (of_char d)"
    and r: "encode_text s1 = encode_text s2'" by (simp_all add: encode_text_def)
  from w have "unat (of_nat (of_char c) :: 8 word) = unat (of_nat (of_char d) :: 8 word)" by simp
  then have "(of_char c :: nat) = of_char d" by (simp add: unat_of_nat)
  then have "c = d" by simp
  with Cons.IH[OF r] s2 show ?case by simp
qed

lemma join_Cons: "\<exists>rest. join sep (x # xs) = x @ rest"
  by (cases xs) auto

lemma dumps_compact_Cons: "\<exists>rest. json_dumps None (r # rs) = CHR ''['' # CHR ''{'' # rest"
proof -
  obtain rest where j: "join '', '' (map (iterencode None 1) (map JDict (r # rs)))
      = iterencode None 1 (JDict r) @ rest"
    using join_Cons[of "'', ''" "iterencode None 1 (JDict r)"] by auto
  have "\<exists>rest'. iterencode None 1 (JDict r) = CHR ''{'' # rest'" by simp
  then obtain rest' where "iterencode None 1 (JDict r) = CHR ''{'' # rest'" by blast
  with j show ?thesis by (simp add: json_dumps_def)
qed

lemma dumps_indent_Cons: "\<exists>rest. json_dumps (Some 2) (r # rs) = CHR ''['' # CHR 0x0A # rest"
  by (simp add: json_dumps_def)

lemma dumps_differ_iff: "json_dumps (Some 2) md = json_dumps None md \<longleftrightarrow> md = []"
proof (cases md)
  case Nil
  then show ?thesis by (simp add: json_dumps_def)
next
  case (Cons r rs)
  from dumps_compact_Cons[of r rs] dumps_indent_Cons[of r rs] Cons show ?thesis by auto
qed

text \<open>Two renderings of one record list, as Python prints them.\<close>

lemma json_dumps_compact_example: "json_dumps None [[(''quality'', JStr ''high''), (''size_kb'', JFloat ''12.3'')]]
  = ''[{'' @ [CHR 0x22] @ ''quality'' @ [CHR 0x22] @ '': '' @ [CHR 0x22] @ ''high'' @ [CHR 0x22]
    @ '', '' @ [CHR 0x22] @ ''size_kb'' @ [CHR 0x22] @ '': 12.3}]''"
  by (simp add: json_dumps_def encode_basestring_ascii_def escape_char_def)

lemma json_dumps_indent_example: "json_dumps (Some 2) [[(''quality'', JStr ''high''), (''size_kb'', JFloat ''12.3'')]]
  = ''['' @ [CHR 0x0A] @ ''  {'' @ [CHR 0x0A] @ ''    '' @ [CHR 0x22] @ ''quality'' @ [CHR 0x22] @ '': '' @ [CHR 0x22] @ ''high'' @ [CHR 0x22]
    @ '','' @ [CHR 0x0A] @ ''    '' @ [CHR 0x22] @ ''size_kb'' @ [CHR 0x22] @ '': 12.3'' @ [CHR 0x0A] @ ''  }'' @ [CHR 0x0A] @ '']''"
  by code_simp

text \<open>
  Claim C2, as the code has it: for every key and data both backends store exactly the
  bytes given to \<open>cache_screenshot\<close>; for the metadata the filesystem backend writes
  \<open>json.dump(metadata, f, indent=2)\<close> and the cloud backend \<open>json.dumps(metadata)\<close>, and
  the two byte sequences are equal exactly when the record list is empty.
\<close>

theorem backends_same_blob_metadata_differs:
  "local_stored_screenshot (local_cache_screenshot lc now v t q d) v t q = Some d
   \<and> gcs_stored_screenshot (gcs_cache_screenshot b False now' v t q d) v t q = Some d
   \<and> (local_stored_metadata (local_cache_metadata lc now v t md) v t
        = gcs_stored_metadata (gcs_cache_metadata b False now' v t md) v t
      \<longleftrightarrow> md = [])"
proof -
  have "encode_text (json_dumps (Some 2) md) = encode_text (json_dumps None md) \<longleftrightarrow> md = []"
    using encode_text_inj dumps_differ_iff by metis
  then show ?thesis
    by (simp add: local_stored_screenshot_def local_cache_screenshot_def gcs_stored_screenshot_def
        gcs_cache_screenshot_def local_stored_metadata_def local_cache_metadata_def
        gcs_stored_metadata_def gcs_cache_metadata_def update_conv')
qed

text \<open>
  Claim C2 as stated fails: for one descriptor the filesystem backend stores the
  indented rendering and the cloud backend the compact one.
\<close>

theorem metadata_bytes_differ_counterexample:
  "local_stored_metadata (local_cache_metadata empty_local_cache 0 ''abc12345678'' 90
       [[(''quality'', JStr ''high'')]]) ''abc12345678'' 90
   \<noteq> gcs_stored_metadata (gcs_cache_metadata [] False 0 ''abc12345678'' 90
       [[(''quality'', JStr ''high'')]]) ''abc12345678'' 90"
  by (simp add: local_stored_metadata_def local_cache_metadata_def empty_local_cache_def
      gcs_stored_metadata_def gcs_cache_metadata_def json_dumps_def encode_text_def)


subsection \<open>Purging\<close>

text \<open>\<open>cleanup_expired_cache\<close> of the filesystem backend removes exactly the files whose age
  is strictly greater than the time to live, and counts them.\<close>

lemma local_cleanup_dir_eq:
  "local_cleanup_dir cutoff d =
     (filter (\<lambda>(n, f). \<not> mtime f < cutoff) d,
      int (length (filter (\<lambda>(n, f). mtime f < cutoff) d)))"
  by (induction d) (auto split: prod.splits)

lemma local_cleanup_removes_older_only:
  "local_cleanup_expired_cache lc now =
     (lc\<lparr> screenshots_dir := filter (\<lambda>(n, f). \<not> now - mtime f > cache_duration) (screenshots_dir lc),
          metadata_dir := filter (\<lambda>(n, f). \<not> now - mtime f > cache_duration) (metadata_dir lc) \<rparr>,
      int (length (filter (\<lambda>(n, f). now - mtime f > cache_duration) (screenshots_dir lc)))
      + int (length (filter (\<lambda>(n, f). now - mtime f > cache_duration) (metadata_dir lc))))"
proof -
  have "\<And>m. (m < now - cache_duration) = (now - m > cache_duration)" by auto
  then show ?thesis
    by (simp add: local_cleanup_expired_cache_def local_cleanup_dir_eq)
qed

text \<open>
  Claim C6: \<open>cleanup_expired_cache\<close> deletes every entry whose age is at least the time to
  live, an entry of age exactly 24 hours included, and returns the number removed. On the
  code the boundary is missed: the purge compares \<open>mtime < now - cache_duration\<close>, so an
  entry of age exactly 24 hours, which \<open>_is_file_expired\<close> and the reads treat as expired
  (\<open>age >= cache_duration\<close>), is kept and the count is 0, in both backends.
\<close>

theorem cleanup_keeps_entry_at_ttl:
  "is_file_expired [(''abc12345678_90_high.png'', \<lparr> content = [1, 2, 3], mtime = 0 \<rparr>)]
      cache_duration ''abc12345678_90_high.png''
   \<and> local_cleanup_expired_cache
        \<lparr> screenshots_dir = [(''abc12345678_90_high.png'', \<lparr> content = [1, 2, 3], mtime = 0 \<rparr>)],
          metadata_dir = [] \<rparr> cache_duration
       = (\<lparr> screenshots_dir = [(''abc12345678_90_high.png'', \<lparr> content = [1, 2, 3], mtime = 0 \<rparr>)],
            metadata_dir = [] \<rparr>, 0)
   \<and> gcs_get_cached_screenshot
        [(''screenshots/abc12345678_90_high.png'',
          \<lparr> data = [1, 2, 3], content_type = ''image/png'', time_created = Some 0 \<rparr>)]
        no_faults cache_duration ''abc12345678'' 90 ''high'' = None
   \<and> gcs_cleanup_expired_cache
        [(''screenshots/abc12345678_90_high.png'',
          \<lparr> data = [1, 2, 3], content_type = ''image/png'', time_created = Some 0 \<rparr>)]
        cache_duration
       = ([(''screenshots/abc12345678_90_high.png'',
            \<lparr> data = [1, 2, 3], content_type = ''image/png'', time_created = Some 0 \<rparr>)], 0)"
  by (simp add: is_file_expired_def local_cleanup_expired_cache_def gcs_cleanup_expired_cache_def
      gcs_get_cached_screenshot_def no_faults_def gcs_cache_key_def screenshot_name_def
      str_int_def Let_def)

subsection \<open>Reads of the durable tier\<close>

text \<open>
  Claim C9: in the cloud backend, when the blob exists and its creation time is not
  available (reading the metadata raises, or \<open>time_created\<close> is \<open>None\<close> after the reload) and
  the download succeeds, \<open>get_cached_screenshot\<close> returns the bytes of the blob at every
  time \<open>now\<close>: no comparison with the time to live is made, so a blob older than 24 hours
  is returned as a hit.
\<close>

theorem gcs_fallback_skips_ttl:
  assumes "map_of b (gcs_cache_key v t q) = Some blob"
    and "\<not> exists_raises fl"
    and "reload_raises fl \<or> time_created blob = None"
    and "\<not> download_raises fl" and "\<not> fallback_raises fl"
  shows "gcs_get_cached_screenshot b fl now v t q = Some (data blob)"
  using assms by (auto simp: gcs_get_cached_screenshot_def Let_def)

theorem gcs_fallback_skips_ttl_witness:
  "map_of [(''screenshots/abc12345678_90_high.png'',
            \<lparr> data = [1, 2, 3], content_type = ''image/png'', time_created = Some 0 \<rparr>)]
      (gcs_cache_key ''abc12345678'' 90 ''high'')
     = Some \<lparr> data = [1, 2, 3], content_type = ''image/png'', time_created = Some 0 \<rparr>
   \<and> 2 * cache_duration - 0 \<ge> cache_duration
   \<and> gcs_get_cached_screenshot
        [(''screenshots/abc12345678_90_high.png'',
          \<lparr> data = [1, 2, 3], content_type = ''image/png'', time_created = Some 0 \<rparr>)]
        (no_faults\<lparr> reload_raises := True \<rparr>) (2 * cache_duration) ''abc12345678'' 90 ''high''
     = Some [1, 2, 3]"
proof -
  let ?blob = "\<lparr> data = [1, 2, 3 :: 8 word], content_type = ''image/png'', time_created = Some (0::int) \<rparr>"
  let ?b = "[(''screenshots/abc12345678_90_high.png'', ?blob)]"
  let ?fl = "no_faults\<lparr> reload_raises := True \<rparr>"
  have h1: "map_of ?b (gcs_cache_key ''abc12345678'' 90 ''high'') = Some ?blob"
    by (simp add: gcs_cache_key_def screenshot_name_def str_int_def)
  have h2: "\<not> exists_raises ?fl" and h3: "reload_raises ?fl \<or> time_created ?blob = None"
    and h4: "\<not> download_raises ?fl" and h5: "\<not> fallback_raises ?fl"
    by (simp_all add: no_faults_def)
  have a: "2 * cache_duration - 0 \<ge> cache_duration" by (simp add: cache_duration_def)
  from gcs_fallback_skips_ttl[OF h1 h2 h3 h4 h5, of "2 * cache_duration"] h1 a show ?thesis by simp
qed





end
